theory Spec2Isabelle
  imports Main
begin

section \<open>Markdown to DOCX: the line loop of \<open>convert_markdown_to_docx\<close>\<close>

text \<open>
  The script \<open>scripts/convert_to_docx.py\<close> reads a Markdown file, splits its text at
  newlines and walks the lines once. Each line either changes the code-fence state or
  adds one paragraph or heading to a python-docx document. This theory embeds that loop
  and proves the properties the specification states about it.
\<close>

subsection \<open>Python strings\<close>

text \<open>
  A Python \<open>str\<close> is a sequence of Unicode code points, so a character is modelled as its
  code point and a string as a list of them. \<open>str\<close> turns a literal of the theory into
  such a list, so that \<open>str ''# ''\<close> is the Python literal \<open>'# '\<close>.
\<close>

type_synonym pystr = "nat list"

definition str :: "string \<Rightarrow> pystr" where
  "str = map of_char"

text \<open>
  \<open>\d\<close> in a \<open>str\<close> pattern matches the characters of Unicode category Nd, and
  \<open>strip()\<close> removes the characters for which \<open>isspace()\<close> holds. Both sets are tables of
  the Python runtime, not of this repository. Their ASCII part is fixed (the digits
  \<open>0\<close> to \<open>9\<close>; tab to carriage return, the four separators \<open>0x1C\<close> to \<open>0x1F\<close>, and the
  space); what they hold beyond ASCII is a parameter of the model.
\<close>

record unicode_db =
  db_decimal :: "nat \<Rightarrow> bool"
  db_space :: "nat \<Rightarrow> bool"

definition isdecimal :: "unicode_db \<Rightarrow> nat \<Rightarrow> bool" where
  "isdecimal db c = (if c < 128 then 48 \<le> c \<and> c \<le> 57 else db_decimal db c)"

definition isspace :: "unicode_db \<Rightarrow> nat \<Rightarrow> bool" where
  "isspace db c =
     (if c < 128 then (9 \<le> c \<and> c \<le> 13) \<or> (28 \<le> c \<and> c \<le> 32) else db_space db c)"

text \<open>A runtime whose tables hold nothing beyond ASCII, for concrete evaluations.\<close>

definition ascii_db :: unicode_db where
  "ascii_db = \<lparr>db_decimal = (\<lambda>c. False), db_space = (\<lambda>c. False)\<rparr>"

text \<open>\<open>s.startswith(p)\<close>\<close>

fun startswith :: "'a list \<Rightarrow> 'a list \<Rightarrow> bool" where
  "startswith s [] = True"
| "startswith [] (p # ps) = False"
| "startswith (c # cs) (p # ps) = (c = p \<and> startswith cs ps)"

text \<open>\<open>sub in s\<close>\<close>

fun contains :: "'a list \<Rightarrow> 'a list \<Rightarrow> bool" where
  "contains sub [] = (sub = [])"
| "contains sub (c # cs) = (startswith (c # cs) sub \<or> contains sub cs)"

text \<open>
  \<open>s.split(sep)\<close> scans from the left and cuts at every occurrence of \<open>sep\<close> that does
  not overlap an earlier one. Python raises \<open>ValueError\<close> for an empty separator; the
  script passes the literals \<open>'\n'\<close> and \<open>'**'\<close> only.
\<close>

fun str_split :: "'a list \<Rightarrow> 'a list \<Rightarrow> 'a list list" where
  "str_split sep [] = [[]]"
| "str_split sep (c # cs) =
     (if sep \<noteq> [] \<and> startswith (c # cs) sep
      then [] # str_split sep (drop (length sep) (c # cs))
      else (case str_split sep cs of [] \<Rightarrow> [[c]] | p # ps \<Rightarrow> (c # p) # ps))"

text \<open>\<open>s.count(sep)\<close>: the number of occurrences that \<open>split\<close> cuts at.\<close>

fun str_count :: "'a list \<Rightarrow> 'a list \<Rightarrow> nat" where
  "str_count sep [] = 0"
| "str_count sep (c # cs) =
     (if sep \<noteq> [] \<and> startswith (c # cs) sep
      then Suc (str_count sep (drop (length sep) (c # cs)))
      else str_count sep cs)"

text \<open>\<open>sep.join(parts)\<close>\<close>

fun join :: "'a list \<Rightarrow> 'a list list \<Rightarrow> 'a list" where
  "join sep [] = []"
| "join sep [p] = p"
| "join sep (p # q # ps) = p @ sep @ join sep (q # ps)"

text \<open>\<open>s.find(c)\<close> for a one-character \<open>c\<close>: the first index of \<open>c\<close>, or \<open>-1\<close>.\<close>

definition find_char :: "'a \<Rightarrow> 'a list \<Rightarrow> int" where
  "find_char c s = (if c \<in> set s then int (length (takeWhile (\<lambda>x. x \<noteq> c) s)) else - 1)"

text \<open>\<open>s.strip()\<close>\<close>

definition strip :: "unicode_db \<Rightarrow> pystr \<Rightarrow> pystr" where
  "strip db s = rev (dropWhile (isspace db) (rev (dropWhile (isspace db) s)))"

text \<open>
  \<open>re.match(r'^\d+\. ', line)\<close>: one or more digits, a period and a space at the start
  of the line. The period is no digit, so the greedy run of digits is the only way to
  match and no backtracking is involved.
\<close>

definition match_numbered :: "unicode_db \<Rightarrow> pystr \<Rightarrow> bool" where
  "match_numbered db line =
     (takeWhile (isdecimal db) line \<noteq> [] \<and>
      startswith (dropWhile (isdecimal db) line) (str ''. ''))"

subsection \<open>The document\<close>

text \<open>
  The loop only ever appends to the document. What it appends is kept as a list of
  blocks, one constructor for each kind of call the loop makes:
  \<^item> \<open>Heading l t\<close>: \<open>doc.add_heading(t, level=l)\<close>;
  \<^item> \<open>Rule\<close>: the centred paragraph of fifty underscores;
  \<^item> \<open>MixedParagraph rs\<close>: \<open>doc.add_paragraph()\<close> followed by one \<open>add_run\<close> for each
    pair of \<open>rs\<close>, bold where the second component is true;
  \<^item> \<open>BulletItem t\<close> and \<open>NumberedItem t\<close>: \<open>doc.add_paragraph(t, style=...)\<close> with the
    styles \<open>List Bullet\<close> and \<open>List Number\<close>;
  \<^item> \<open>CodeBlock t\<close>: the \<open>Quote\<close> paragraph with one Courier New run \<open>t\<close>;
  \<^item> \<open>Paragraph t\<close>: \<open>doc.add_paragraph(t)\<close>;
  \<^item> \<open>BlankLine\<close>: \<open>doc.add_paragraph()\<close>.
  How python-docx renders and saves these is outside the model; that it can refuse
  a text is modelled with the loop below.
\<close>

datatype block =
    Heading nat pystr
  | Rule
  | MixedParagraph "(pystr \<times> bool) list"
  | BulletItem pystr
  | NumberedItem pystr
  | CodeBlock pystr
  | Paragraph pystr
  | BlankLine

text \<open>The runs of the bold branch: \<open>enumerate(parts)\<close>, bold where \<open>i % 2\<close> is not 0.\<close>

definition bold_runs :: "pystr list \<Rightarrow> (pystr \<times> bool) list" where
  "bold_runs parts = map (\<lambda>(i, part). (part, i mod 2 \<noteq> 0)) (enumerate 0 parts)"

text \<open>The \<open>if\<close>/\<open>elif\<close> chain of lines 57 to 96, for a line outside a code block.\<close>

definition classify :: "unicode_db \<Rightarrow> pystr \<Rightarrow> block" where
  "classify db line =
     (if startswith line (str ''# '') then Heading 1 (drop 2 line)
      else if startswith line (str ''## '') then Heading 2 (drop 3 line)
      else if startswith line (str ''### '') then Heading 3 (drop 4 line)
      else if startswith line (str ''#### '') then Heading 4 (drop 5 line)
      else if startswith line (str ''---'') then Rule
      else if contains (str ''**'') line
        then MixedParagraph (bold_runs (str_split (str ''**'') line))
      else if startswith line (str ''- '') then BulletItem (drop 2 line)
      else if match_numbered db line
        then NumberedItem (drop (nat (find_char 32 line + 1)) line)
      else if strip db line \<noteq> [] then Paragraph line
      else BlankLine)"

subsection \<open>The loop\<close>

record state =
  in_code_block :: bool
  code_block_content :: "pystr list"
  doc :: "block list"

definition init :: state where
  "init = \<lparr>in_code_block = False, code_block_content = [], doc = []\<rparr>"

text \<open>
  One iteration of the loop of lines 34 to 96. The variable \<open>current_paragraph\<close> is
  set once and never read, so the state has no field for it.
\<close>

definition step :: "unicode_db \<Rightarrow> state \<Rightarrow> pystr \<Rightarrow> state" where
  "step db s line =
     (if startswith line (str ''```'') then
        (if in_code_block s then
           s\<lparr>doc := doc s @
                (if code_block_content s \<noteq> []
                 then [CodeBlock (join (str ''\<newline>'') (code_block_content s))] else []),
             code_block_content := [],
             in_code_block := False\<rparr>
         else s\<lparr>in_code_block := True\<rparr>)
      else if in_code_block s then
        s\<lparr>code_block_content := code_block_content s @ [line]\<rparr>
      else s\<lparr>doc := doc s @ [classify db line]\<rparr>)"

definition run_lines :: "unicode_db \<Rightarrow> pystr list \<Rightarrow> state" where
  "run_lines db lines = foldl (step db) init lines"

text \<open>The document built from the text of the file.\<close>

definition convert_markdown_to_docx :: "unicode_db \<Rightarrow> pystr \<Rightarrow> block list" where
  "convert_markdown_to_docx db md_content =
     doc (run_lines db (str_split (str ''\<newline>'') md_content))"

subsection \<open>The loop with the failure of python-docx\<close>

text \<open>
  \<open>step\<close> records which call each line makes. The call itself can fail: python-docx
  writes every text into an XML element, and the XML library under it raises
  \<open>ValueError\<close> for a string with a character that XML does not allow. Nothing in the
  loop catches it, so the exception ends \<open>convert_markdown_to_docx\<close>; \<open>main\<close> catches it
  and prints a message. No other operation of the loop can raise.
\<close>

datatype error = ValueError

text \<open>
  The characters XML allows. Below 128 these are tab, line feed, carriage return and
  everything from the space on; which characters beyond ASCII the library accepts is a
  parameter, as for the Unicode tables.
\<close>

definition xml_compatible :: "(nat \<Rightarrow> bool) \<Rightarrow> nat \<Rightarrow> bool" where
  "xml_compatible xml c = (if c < 128 then c = 9 \<or> c = 10 \<or> c = 13 \<or> 32 \<le> c else xml c)"

text \<open>The characters beyond ASCII that XML 1.0 allows, for concrete evaluations.\<close>

definition xml10 :: "nat \<Rightarrow> bool" where
  "xml10 c = (c \<le> 55295 \<or> (57344 \<le> c \<and> c \<le> 65533) \<or> (65536 \<le> c \<and> c \<le> 1114111))"

text \<open>
  The texts a call hands to python-docx: the text of the heading or paragraph, each run
  of the bold branch, the fifty underscores of the rule, and none for the empty
  paragraph.
\<close>

fun block_texts :: "block \<Rightarrow> pystr list" where
  "block_texts (Heading l t) = [t]"
| "block_texts Rule = [str (replicate 50 CHR ''_'')]"
| "block_texts (MixedParagraph rs) = map fst rs"
| "block_texts (BulletItem t) = [t]"
| "block_texts (NumberedItem t) = [t]"
| "block_texts (CodeBlock t) = [t]"
| "block_texts (Paragraph t) = [t]"
| "block_texts BlankLine = []"

definition accepts :: "(nat \<Rightarrow> bool) \<Rightarrow> block \<Rightarrow> bool" where
  "accepts xml b = list_all (list_all (xml_compatible xml)) (block_texts b)"

text \<open>A call that adds the block \<open>b\<close>: it appends the block or raises.\<close>

definition add_block :: "(nat \<Rightarrow> bool) \<Rightarrow> state \<Rightarrow> block \<Rightarrow> error + state" where
  "add_block xml s b = (if accepts xml b then Inr (s\<lparr>doc := doc s @ [b]\<rparr>) else Inl ValueError)"

text \<open>
  One iteration of the loop, with the exception. The branches are those of \<open>step\<close>; the
  two that call python-docx go through \<open>add_block\<close>. A line inside a code block is only
  appended to the buffer and is not handed to python-docx.
\<close>

definition step_docx :: "unicode_db \<Rightarrow> (nat \<Rightarrow> bool) \<Rightarrow> state \<Rightarrow> pystr \<Rightarrow> error + state" where
  "step_docx db xml s line =
     (if startswith line (str ''```'') then
        (if in_code_block s then
           (case (if code_block_content s \<noteq> []
                  then add_block xml s (CodeBlock (join (str ''\<newline>'') (code_block_content s)))
                  else Inr s) of
              Inl e \<Rightarrow> Inl e
            | Inr s' \<Rightarrow> Inr (s'\<lparr>code_block_content := [], in_code_block := False\<rparr>))
         else Inr (s\<lparr>in_code_block := True\<rparr>))
      else if in_code_block s then
        Inr (s\<lparr>code_block_content := code_block_content s @ [line]\<rparr>)
      else add_block xml s (classify db line))"

text \<open>The loop: the first exception ends it.\<close>

fun run_from :: "unicode_db \<Rightarrow> (nat \<Rightarrow> bool) \<Rightarrow> state \<Rightarrow> pystr list \<Rightarrow> error + state" where
  "run_from db xml s [] = Inr s"
| "run_from db xml s (line # lines) =
     (case step_docx db xml s line of
        Inl e \<Rightarrow> Inl e
      | Inr s' \<Rightarrow> run_from db xml s' lines)"

definition run_docx :: "unicode_db \<Rightarrow> (nat \<Rightarrow> bool) \<Rightarrow> pystr list \<Rightarrow> error + state" where
  "run_docx db xml lines = run_from db xml init lines"

text \<open>The document built from the text of the file, or the exception.\<close>

definition convert_or_raise :: "unicode_db \<Rightarrow> (nat \<Rightarrow> bool) \<Rightarrow> pystr \<Rightarrow> error + block list" where
  "convert_or_raise db xml md_content =
     (case run_docx db xml (str_split (str ''\<newline>'') md_content) of
        Inl e \<Rightarrow> Inl e
      | Inr s \<Rightarrow> Inr (doc s))"


section \<open>Properties\<close>

subsection \<open>Auxiliary facts about strings\<close>

lemma startswith_iff: "startswith s p \<longleftrightarrow> (\<exists>r. s = p @ r)"
  by (induction s p rule: startswith.induct) auto

lemma startswith_drop: "startswith s p \<Longrightarrow> s = p @ drop (length p) s"
  by (auto simp: startswith_iff)

lemma str_hash1: "str ''# '' = [35, 32]" by (simp add: str_def)
lemma str_hash2: "str ''## '' = [35, 35, 32]" by (simp add: str_def)
lemma str_hash3: "str ''### '' = [35, 35, 35, 32]" by (simp add: str_def)
lemma str_hash4: "str ''#### '' = [35, 35, 35, 35, 32]" by (simp add: str_def)
lemma str_fence: "str ''```'' = [96, 96, 96]" by (simp add: str_def)
lemma str_rule: "str ''---'' = [45, 45, 45]" by (simp add: str_def)
lemma str_bold: "str ''**'' = [42, 42]" by (simp add: str_def)
lemma str_bullet: "str ''- '' = [45, 32]" by (simp add: str_def)
lemma str_dot: "str ''. '' = [46, 32]" by (simp add: str_def)
lemma str_nl: "str ''\<newline>'' = [10]" by (simp add: str_def)
lemmas str_lits = str_hash1 str_hash2 str_hash3 str_hash4 str_fence str_rule str_bold str_bullet str_dot str_nl

lemma str_split_not_Nil: "str_split sep s \<noteq> []"
  by (induction sep s rule: str_split.induct) (auto split: list.splits)

lemma join_Cons: "ps \<noteq> [] \<Longrightarrow> join sep (p # ps) = p @ sep @ join sep ps"
  by (cases ps) auto

lemma join_split: "join sep (str_split sep s) = s"
proof (induction sep s rule: str_split.induct)
  case (1 sep)
  show ?case by simp
next
  case (2 sep c cs)
  show ?case
  proof (cases "sep \<noteq> [] \<and> startswith (c # cs) sep")
    case True
    then have "c # cs = sep @ drop (length sep) (c # cs)"
      by (simp add: startswith_drop)
    moreover have "join sep (str_split sep (drop (length sep) (c # cs))) = drop (length sep) (c # cs)"
      using 2(1) True by simp
    ultimately show ?thesis
      using True by (simp add: join_Cons str_split_not_Nil)
  next
    case False
    obtain p ps where sp: "str_split sep cs = p # ps"
      using str_split_not_Nil [of sep cs] by (cases "str_split sep cs") auto
    have "join sep (p # ps) = cs"
      using 2(2) False sp by simp
    then have "join sep ((c # p) # ps) = c # cs"
      by (cases ps) auto
    then show ?thesis
      using False sp by auto
  qed
qed

lemma length_split: "length (str_split sep s) = Suc (str_count sep s)"
  by (induction sep s rule: str_split.induct) (auto split: list.splits simp: str_split_not_Nil)

lemma length_bold_runs: "length (bold_runs ps) = length ps"
  by (simp add: bold_runs_def)

lemma nth_bold_runs: "i < length ps \<Longrightarrow> bold_runs ps ! i = (ps ! i, odd i)"
  by (simp add: bold_runs_def nth_enumerate_eq odd_iff_mod_2_eq_one)

lemma last_bold_runs: "ps \<noteq> [] \<Longrightarrow> last (bold_runs ps) = (last ps, even (length ps))"
proof -
  assume ne: "ps \<noteq> []"
  then have "bold_runs ps \<noteq> []"
    using length_bold_runs [of ps] by auto
  then have "last (bold_runs ps) = bold_runs ps ! (length ps - 1)"
    by (simp add: last_conv_nth length_bold_runs)
  also have "\<dots> = (ps ! (length ps - 1), odd (length ps - 1))"
    using ne by (simp add: nth_bold_runs)
  finally show ?thesis
    using ne by (cases ps rule: rev_cases) (auto simp: last_conv_nth)
qed

lemma strip_nonempty_iff: "strip db s \<noteq> [] \<longleftrightarrow> (\<exists>c\<in>set s. \<not> isspace db c)"
proof -
  let ?d = "dropWhile (isspace db) s"
  have "strip db s = [] \<longleftrightarrow> (\<forall>x\<in>set ?d. isspace db x)"
    by (simp add: strip_def)
  also have "\<dots> \<longleftrightarrow> ?d = []"
  proof
    assume all: "\<forall>x\<in>set ?d. isspace db x"
    show "?d = []"
    proof (rule ccontr)
      assume ne: "?d \<noteq> []"
      then have "\<not> isspace db (hd ?d)"
        by (rule hd_dropWhile)
      moreover have "hd ?d \<in> set ?d"
        using ne by (rule hd_in_set)
      ultimately show False using all by blast
    qed
  next
    assume "?d = []"
    then show "\<forall>x\<in>set ?d. isspace db x" by (metis empty_iff empty_set)
  qed
  also have "\<dots> \<longleftrightarrow> (\<forall>x\<in>set s. isspace db x)"
    by simp
  finally show ?thesis by blast
qed

subsection \<open>Auxiliary facts about the loop\<close>

lemma classify_h1: "startswith line (str ''# '') \<Longrightarrow> classify db line = Heading 1 (drop 2 line)"
  by (simp add: classify_def)

lemma classify_h2: "startswith line (str ''## '') \<Longrightarrow> classify db line = Heading 2 (drop 3 line)"
  by (auto simp: classify_def startswith_iff str_lits)

lemma classify_h3: "startswith line (str ''### '') \<Longrightarrow> classify db line = Heading 3 (drop 4 line)"
  by (auto simp: classify_def startswith_iff str_lits)

lemma classify_h4: "startswith line (str ''#### '') \<Longrightarrow> classify db line = Heading 4 (drop 5 line)"
  by (auto simp: classify_def startswith_iff str_lits)

lemma step_outside:
  "\<not> in_code_block s \<Longrightarrow> \<not> startswith line (str ''```'') \<Longrightarrow>
   step db s line = s\<lparr>doc := doc s @ [classify db line]\<rparr>"
  by (simp add: step_def)

lemma step_open: "startswith line (str ''```'') \<Longrightarrow> \<not> in_code_block s \<Longrightarrow>
  step db s line = s\<lparr>in_code_block := True\<rparr>"
  by (simp add: step_def)

lemma step_close: "startswith line (str ''```'') \<Longrightarrow> in_code_block s \<Longrightarrow>
  step db s line =
    s\<lparr>doc := doc s @ (if code_block_content s \<noteq> []
                       then [CodeBlock (join (str ''\<newline>'') (code_block_content s))] else []),
      code_block_content := [], in_code_block := False\<rparr>"
  by (simp add: step_def)

lemma step_buffer: "\<not> startswith line (str ''```'') \<Longrightarrow> in_code_block s \<Longrightarrow>
  step db s line = s\<lparr>code_block_content := code_block_content s @ [line]\<rparr>"
  by (simp add: step_def)

lemma buffer_lines:
  "in_code_block s \<Longrightarrow> \<forall>l\<in>set body. \<not> startswith l (str ''```'') \<Longrightarrow>
   foldl (step db) s body = s\<lparr>code_block_content := code_block_content s @ body\<rparr>"
proof (induction body arbitrary: s)
  case Nil
  then show ?case by simp
next
  case (Cons l body)
  have "step db s l = s\<lparr>code_block_content := code_block_content s @ [l]\<rparr>"
    using Cons.prems by (simp add: step_buffer)
  moreover have "in_code_block (s\<lparr>code_block_content := code_block_content s @ [l]\<rparr>)"
    using Cons.prems by simp
  ultimately show ?case
    using Cons.IH [of "s\<lparr>code_block_content := code_block_content s @ [l]\<rparr>"] Cons.prems
    by simp
qed

lemma fence_run:
  assumes "\<not> in_code_block s" and "code_block_content s = []"
    and "startswith opener (str ''```'')" and "startswith closer (str ''```'')"
    and "\<forall>l\<in>set body. \<not> startswith l (str ''```'')"
  shows "foldl (step db) s (opener # body @ [closer]) =
         s\<lparr>doc := doc s @ (if body \<noteq> [] then [CodeBlock (join (str ''\<newline>'') body)] else [])\<rparr>"
proof -
  let ?s1 = "s\<lparr>in_code_block := True\<rparr>"
  let ?s2 = "?s1\<lparr>code_block_content := body\<rparr>"
  have "step db s opener = ?s1"
    using assms by (simp add: step_open)
  moreover have "foldl (step db) ?s1 body = ?s2"
    using assms buffer_lines [of ?s1 body db] by simp
  moreover have "step db ?s2 closer =
      s\<lparr>doc := doc s @ (if body \<noteq> [] then [CodeBlock (join (str ''\<newline>'') body)] else [])\<rparr>"
    using assms by (simp add: step_close)
  ultimately show ?thesis by simp
qed

subsection \<open>Headings\<close>

text \<open>
  C1. Outside a code block, a line that begins with \<open>'# '\<close> becomes a heading of level 1
  whose text is the line without these two characters; \<open>'## '\<close>, \<open>'### '\<close> and
  \<open>'#### '\<close> give levels 2, 3 and 4 in the same way. The line \<open>'#### x'\<close> becomes the
  heading of level 4 with text \<open>x\<close>, not a heading of level 1 with text \<open>'### x'\<close>.
  By \<open>startswith_iff\<close> a line begins with a prefix exactly when it is the prefix followed
  by some text \<open>t\<close>, which is how the lines are written here.
\<close>

theorem C1_heading_levels:
  assumes "\<not> in_code_block s"
  shows "step db s (str ''# '' @ t) = s\<lparr>doc := doc s @ [Heading 1 t]\<rparr>
       \<and> step db s (str ''## '' @ t) = s\<lparr>doc := doc s @ [Heading 2 t]\<rparr>
       \<and> step db s (str ''### '' @ t) = s\<lparr>doc := doc s @ [Heading 3 t]\<rparr>
       \<and> step db s (str ''#### '' @ t) = s\<lparr>doc := doc s @ [Heading 4 t]\<rparr>
       \<and> step db s (str ''#### x'') = s\<lparr>doc := doc s @ [Heading 4 (str ''x'')]\<rparr>
       \<and> step db s (str ''#### x'') \<noteq> s\<lparr>doc := doc s @ [Heading 1 (str ''### x'')]\<rparr>"
proof -
  have h1: "step db s (str ''# '' @ t) = s\<lparr>doc := doc s @ [Heading 1 t]\<rparr>" for t
    using assms by (simp add: step_def classify_def str_lits)
  have h2: "step db s (str ''## '' @ t) = s\<lparr>doc := doc s @ [Heading 2 t]\<rparr>" for t
    using assms by (simp add: step_def classify_def str_lits)
  have h3: "step db s (str ''### '' @ t) = s\<lparr>doc := doc s @ [Heading 3 t]\<rparr>" for t
    using assms by (simp add: step_def classify_def str_lits)
  have h4: "step db s (str ''#### '' @ t) = s\<lparr>doc := doc s @ [Heading 4 t]\<rparr>" for t
    using assms by (simp add: step_def classify_def str_lits)
  have x: "str ''#### x'' = str ''#### '' @ str ''x''"
    by (simp add: str_def)
  have h5: "step db s (str ''#### x'') = s\<lparr>doc := doc s @ [Heading 4 (str ''x'')]\<rparr>"
    unfolding x by (rule h4)
  have "doc (step db s (str ''#### x'')) \<noteq> doc (s\<lparr>doc := doc s @ [Heading 1 (str ''### x'')]\<rparr>)"
    unfolding h5 by simp
  then have h6: "step db s (str ''#### x'') \<noteq> s\<lparr>doc := doc s @ [Heading 1 (str ''### x'')]\<rparr>"
    by metis
  show ?thesis
    using h1 h2 h3 h4 h5 h6 by blast
qed

theorem C1_heading_levels_witness:
  "\<not> in_code_block init
   \<and> step ascii_db init (str ''# Farmaverse'') = init\<lparr>doc := [Heading 1 (str ''Farmaverse'')]\<rparr>
   \<and> step ascii_db init (str ''## Farmaverse'') = init\<lparr>doc := [Heading 2 (str ''Farmaverse'')]\<rparr>
   \<and> step ascii_db init (str ''### Farmaverse'') = init\<lparr>doc := [Heading 3 (str ''Farmaverse'')]\<rparr>
   \<and> step ascii_db init (str ''#### Farmaverse'') = init\<lparr>doc := [Heading 4 (str ''Farmaverse'')]\<rparr>"
  using C1_heading_levels [where s = init and db = ascii_db and t = "str ''Farmaverse''"]
  by (simp add: init_def str_def)

subsection \<open>Code fences\<close>

text \<open>
  C3. The lines \<open>```\<close>, \<open>line1\<close>, \<open>line2\<close>, \<open>```\<close> give exactly one code block with
  the text \<open>line1\nline2\<close>, and leave the loop outside a code block with an empty
  buffer; the same holds for the file text that splits into these lines. In general,
  from a state outside a code block with an empty buffer, an opening fence line, a body
  without fence lines and a closing fence line add one code block with the body joined
  by newlines when the body is not empty and nothing otherwise, and change nothing else
  of the state: the two fence lines add no block of their own and the buffer is empty
  again afterwards.
\<close>

theorem C3_code_fence:
  "run_lines db [str ''```'', str ''line1'', str ''line2'', str ''```''] =
           \<lparr>in_code_block = False, code_block_content = [],
            doc = [CodeBlock (str ''line1\<newline>line2'')]\<rparr>
       \<and> convert_markdown_to_docx db (str ''```\<newline>line1\<newline>line2\<newline>```'') =
           [CodeBlock (str ''line1\<newline>line2'')]
       \<and> (\<not> in_code_block s \<and> code_block_content s = []
            \<and> startswith opener (str ''```'') \<and> startswith closer (str ''```'')
            \<and> (\<forall>l\<in>set body. \<not> startswith l (str ''```''))
          \<longrightarrow> foldl (step db) s (opener # body @ [closer]) =
               s\<lparr>doc := doc s @
                   (if body \<noteq> [] then [CodeBlock (join (str ''\<newline>'') body)] else [])\<rparr>)"
proof -
  have a: "run_lines db [str ''```'', str ''line1'', str ''line2'', str ''```''] =
           \<lparr>in_code_block = False, code_block_content = [],
            doc = [CodeBlock (str ''line1\<newline>line2'')]\<rparr>"
    by (simp add: run_lines_def step_def init_def str_def)
  have "str_split (str ''\<newline>'') (str ''```\<newline>line1\<newline>line2\<newline>```'') =
        [str ''```'', str ''line1'', str ''line2'', str ''```'']"
    by (simp add: str_def)
  then have b: "convert_markdown_to_docx db (str ''```\<newline>line1\<newline>line2\<newline>```'') =
           [CodeBlock (str ''line1\<newline>line2'')]"
    by (simp add: convert_markdown_to_docx_def a)
  show ?thesis
    using a b fence_run [of s opener closer body db] by (simp add: str_def)
qed

theorem C3_code_fence_witness:
  "\<not> in_code_block init \<and> code_block_content init = []
   \<and> startswith (str ''```python'') (str ''```'') \<and> startswith (str ''```'') (str ''```'')
   \<and> \<not> startswith (str ''line1'') (str ''```'') \<and> \<not> startswith (str ''line2'') (str ''```'')
   \<and> foldl (step ascii_db) init (str ''```python'' # [str ''line1'', str ''line2''] @ [str ''```'']) =
       init\<lparr>doc := [CodeBlock (str ''line1\<newline>line2'')]\<rparr>"
  using C3_code_fence [where s = init and opener = "str ''```python''" and closer = "str ''```''"
      and body = "[str ''line1'', str ''line2'']" and db = ascii_db]
  by (simp add: init_def str_def)

subsection \<open>Bold text\<close>

lemma join_hd: "ps \<noteq> [] \<Longrightarrow> \<exists>r. join sep ps = hd ps @ r"
  by (cases ps; cases "tl ps") auto

lemma split_hd_prefix: "\<exists>r. s = hd (str_split sep s) @ r"
  using join_hd [OF str_split_not_Nil, of sep sep s] by (simp add: join_split)

lemma split_pieces_free:
  "sep \<noteq> [] \<Longrightarrow> p \<in> set (str_split sep s) \<Longrightarrow> \<not> contains sep p"
proof (induction sep s arbitrary: p rule: str_split.induct)
  case (1 sep)
  then show ?case by simp
next
  case (2 sep c cs)
  show ?case
  proof (cases "startswith (c # cs) sep")
    case True
    then have "p = [] \<or> p \<in> set (str_split sep (drop (length sep) (c # cs)))"
      using 2 by simp
    then show ?thesis
      using 2 True by auto
  next
    case False
    obtain q qs where sp: "str_split sep cs = q # qs"
      using str_split_not_Nil [of sep cs] by (cases "str_split sep cs") auto
    then have p: "p = c # q \<or> p \<in> set qs"
      using 2 False by simp
    obtain r where r: "cs = q @ r"
      using split_hd_prefix [of cs sep] sp by auto
    have "\<not> startswith (c # q) sep"
    proof
      assume "startswith (c # q) sep"
      then obtain r' where "c # q = sep @ r'"
        by (auto simp: startswith_iff)
      then have "c # cs = sep @ r' @ r"
        using r by simp
      then show False
        using False startswith_iff by blast
    qed
    moreover have "\<not> contains sep q" and "\<forall>x\<in>set qs. \<not> contains sep x"
      using 2(2) [of q] 2(2) False sp 2(3) by auto
    ultimately show ?thesis
      using p by auto
  qed
qed

lemma bold_example:
  "bold_runs (str_split (str ''**'') (str ''**bold** and plain'')) =
     [(str '''', False), (str ''bold'', True), (str '' and plain'', False)]"
  by (simp add: str_def bold_runs_def)

lemma classify_bold:
  "\<not> startswith line (str ''# '') \<Longrightarrow> \<not> startswith line (str ''## '') \<Longrightarrow>
   \<not> startswith line (str ''### '') \<Longrightarrow> \<not> startswith line (str ''#### '') \<Longrightarrow>
   \<not> startswith line (str ''---'') \<Longrightarrow> contains (str ''**'') line \<Longrightarrow>
   classify db line = MixedParagraph (bold_runs (str_split (str ''**'') line))"
  by (simp add: classify_def)

lemma bullet_no_earlier:
  "startswith line (str ''- '') \<Longrightarrow>
   \<not> startswith line (str ''```'') \<and> \<not> startswith line (str ''# '') \<and>
   \<not> startswith line (str ''## '') \<and> \<not> startswith line (str ''### '') \<and>
   \<not> startswith line (str ''#### '') \<and> \<not> startswith line (str ''---'')"
  by (auto simp: startswith_iff str_lits)

text \<open>
  C2. Outside a code block, a line that is no fence line, begins with none of the four
  heading prefixes nor with \<open>'---'\<close>, and contains \<open>'**'\<close> becomes one paragraph whose
  runs are the pieces of \<open>line.split('**')\<close>: the pieces joined by \<open>'**'\<close> give the line
  back, none of them contains \<open>'**'\<close>, there is one more piece than occurrences of
  \<open>'**'\<close>, the piece at an even index is a plain run and the piece at an odd index a
  bold run, and with an odd number of occurrences the last run is bold. The line
  \<open>'**bold** and plain'\<close> gives an empty plain run, the bold run \<open>bold\<close> and the plain run
  \<open>' and plain'\<close>.
\<close>

theorem C2_bold_runs:
  assumes "\<not> in_code_block s"
    and "\<not> startswith line (str ''```'')"
    and "\<not> startswith line (str ''# '')" and "\<not> startswith line (str ''## '')"
    and "\<not> startswith line (str ''### '')" and "\<not> startswith line (str ''#### '')"
    and "\<not> startswith line (str ''---'')"
    and "contains (str ''**'') line"
  shows "step db s line =
           s\<lparr>doc := doc s @ [MixedParagraph (bold_runs (str_split (str ''**'') line))]\<rparr>
       \<and> join (str ''**'') (str_split (str ''**'') line) = line
       \<and> (\<forall>p\<in>set (str_split (str ''**'') line). \<not> contains (str ''**'') p)
       \<and> length (bold_runs (str_split (str ''**'') line)) = Suc (str_count (str ''**'') line)
       \<and> (\<forall>i<length (str_split (str ''**'') line).
             bold_runs (str_split (str ''**'') line) ! i = (str_split (str ''**'') line ! i, odd i))
       \<and> (odd (str_count (str ''**'') line) \<longrightarrow>
             last (bold_runs (str_split (str ''**'') line)) =
               (last (str_split (str ''**'') line), True))
       \<and> step db s (str ''**bold** and plain'') =
           s\<lparr>doc := doc s @ [MixedParagraph
             [(str '''', False), (str ''bold'', True), (str '' and plain'', False)]]\<rparr>"
proof -
  let ?ps = "str_split (str ''**'') line"
  have a: "step db s line = s\<lparr>doc := doc s @ [MixedParagraph (bold_runs ?ps)]\<rparr>"
    using assms by (simp add: step_outside classify_bold)
  have b: "join (str ''**'') ?ps = line"
    by (rule join_split)
  have c: "\<forall>p\<in>set ?ps. \<not> contains (str ''**'') p"
    using split_pieces_free [of "str ''**''" _ line] by (simp add: str_lits)
  have d: "length (bold_runs ?ps) = Suc (str_count (str ''**'') line)"
    by (simp add: length_bold_runs length_split)
  have e: "\<forall>i<length ?ps. bold_runs ?ps ! i = (?ps ! i, odd i)"
    by (simp add: nth_bold_runs)
  have f: "odd (str_count (str ''**'') line) \<longrightarrow> last (bold_runs ?ps) = (last ?ps, True)"
    by (simp add: last_bold_runs str_split_not_Nil length_split)
  have "\<not> startswith (str ''**bold** and plain'') (str ''```'')"
    by (simp add: str_def)
  moreover have "classify db (str ''**bold** and plain'') =
      MixedParagraph [(str '''', False), (str ''bold'', True), (str '' and plain'', False)]"
    by (simp add: classify_def bold_runs_def str_def)
  ultimately have g: "step db s (str ''**bold** and plain'') =
           s\<lparr>doc := doc s @ [MixedParagraph
             [(str '''', False), (str ''bold'', True), (str '' and plain'', False)]]\<rparr>"
    using assms(1) by (simp add: step_outside)
  show ?thesis
    using a b c d e f g by blast
qed

theorem C2_bold_runs_witness:
  "\<not> in_code_block init
   \<and> \<not> startswith (str ''a **b** c **d'') (str ''```'')
   \<and> \<not> startswith (str ''a **b** c **d'') (str ''# '')
   \<and> \<not> startswith (str ''a **b** c **d'') (str ''## '')
   \<and> \<not> startswith (str ''a **b** c **d'') (str ''### '')
   \<and> \<not> startswith (str ''a **b** c **d'') (str ''#### '')
   \<and> \<not> startswith (str ''a **b** c **d'') (str ''---'')
   \<and> contains (str ''**'') (str ''a **b** c **d'')
   \<and> odd (str_count (str ''**'') (str ''a **b** c **d''))
   \<and> step ascii_db init (str ''a **b** c **d'') =
       init\<lparr>doc := [MixedParagraph
         [(str ''a '', False), (str ''b'', True), (str '' c '', False), (str ''d'', True)]]\<rparr>"
  using C2_bold_runs [where s = init and db = ascii_db and line = "str ''a **b** c **d''"]
  by (simp add: init_def str_def bold_runs_def)

text \<open>
  C7. Outside a code block, a line that begins with \<open>'- '\<close> and contains \<open>'**'\<close> becomes
  a paragraph of alternating plain and bold runs, and not a bullet item: the bold test
  comes before the bullet test in the chain.
\<close>

theorem C7_bold_before_bullet:
  assumes "\<not> in_code_block s"
    and "startswith line (str ''- '')"
    and "contains (str ''**'') line"
  shows "step db s line =
           s\<lparr>doc := doc s @ [MixedParagraph (bold_runs (str_split (str ''**'') line))]\<rparr>
       \<and> doc (step db s line) \<noteq> doc s @ [BulletItem t]"
proof -
  have "classify db line = MixedParagraph (bold_runs (str_split (str ''**'') line))"
    using bullet_no_earlier [OF assms(2)] assms(3) by (simp add: classify_bold)
  then have "step db s line =
           s\<lparr>doc := doc s @ [MixedParagraph (bold_runs (str_split (str ''**'') line))]\<rparr>"
    using bullet_no_earlier [OF assms(2)] assms(1) by (simp add: step_outside)
  then show ?thesis by simp
qed

theorem C7_bold_before_bullet_witness:
  "\<not> in_code_block init
   \<and> startswith (str ''- **Farmers** earn more'') (str ''- '')
   \<and> contains (str ''**'') (str ''- **Farmers** earn more'')
   \<and> step ascii_db init (str ''- **Farmers** earn more'') =
       init\<lparr>doc := [MixedParagraph
         [(str ''- '', False), (str ''Farmers'', True), (str '' earn more'', False)]]\<rparr>"
  using C7_bold_before_bullet [where s = init and db = ascii_db
      and line = "str ''- **Farmers** earn more''"]
  by (simp add: init_def str_def bold_runs_def)

subsection \<open>List items\<close>

lemma isdecimal_ascii: "isdecimal db c \<Longrightarrow> c < 128 \<Longrightarrow> 48 \<le> c \<and> c \<le> 57"
  by (simp add: isdecimal_def)

lemma not_decimal_dot: "\<not> isdecimal db 46"
  by (simp add: isdecimal_def)

lemma not_decimal_space: "\<not> isdecimal db 32"
  by (simp add: isdecimal_def)

lemma match_numbered_iff:
  "match_numbered db line \<longleftrightarrow>
     (\<exists>ds t. ds \<noteq> [] \<and> (\<forall>d\<in>set ds. isdecimal db d) \<and> line = ds @ str ''. '' @ t)"
proof
  assume m: "match_numbered db line"
  let ?ds = "takeWhile (isdecimal db) line"
  obtain t where "dropWhile (isdecimal db) line = str ''. '' @ t"
    using m by (auto simp: match_numbered_def startswith_iff)
  then have "line = ?ds @ str ''. '' @ t"
    using takeWhile_dropWhile_id [of "isdecimal db" line] by simp
  moreover have "?ds \<noteq> []" and "\<forall>d\<in>set ?ds. isdecimal db d"
    using m by (auto simp: match_numbered_def dest: set_takeWhileD)
  ultimately show "\<exists>ds t. ds \<noteq> [] \<and> (\<forall>d\<in>set ds. isdecimal db d) \<and> line = ds @ str ''. '' @ t"
    by blast
next
  assume "\<exists>ds t. ds \<noteq> [] \<and> (\<forall>d\<in>set ds. isdecimal db d) \<and> line = ds @ str ''. '' @ t"
  then obtain ds t where ds: "ds \<noteq> []" "\<forall>d\<in>set ds. isdecimal db d"
    and line: "line = ds @ 46 # 32 # t"
    by (auto simp: str_lits)
  have "takeWhile (isdecimal db) line = ds" and "dropWhile (isdecimal db) line = 46 # 32 # t"
    using ds line not_decimal_dot [of db]
    by simp_all
  then show "match_numbered db line"
    using ds by (simp add: match_numbered_def str_lits)
qed

lemma numbered_text:
  assumes "\<forall>d\<in>set ds. isdecimal db d"
  shows "drop (nat (find_char 32 (ds @ str ''. '' @ t) + 1)) (ds @ str ''. '' @ t) = t"
proof -
  have ns: "\<forall>d\<in>set ds. d \<noteq> 32"
    using assms not_decimal_space [of db] by auto
  then have "takeWhile (\<lambda>x. x \<noteq> 32) (ds @ 46 # 32 # t) = ds @ [46]"
    by simp
  then have "find_char 32 (ds @ 46 # 32 # t) = int (length ds) + 1"
    by (simp add: find_char_def)
  then show ?thesis
    by (simp add: str_lits nat_add_distrib)
qed

lemma numbered_no_earlier:
  assumes "ds \<noteq> []" and "\<forall>d\<in>set ds. isdecimal db d"
  shows "\<not> startswith (ds @ r) (str ''```'') \<and> \<not> startswith (ds @ r) (str ''# '') \<and>
         \<not> startswith (ds @ r) (str ''## '') \<and> \<not> startswith (ds @ r) (str ''### '') \<and>
         \<not> startswith (ds @ r) (str ''#### '') \<and> \<not> startswith (ds @ r) (str ''---'') \<and>
         \<not> startswith (ds @ r) (str ''- '')"
proof -
  obtain d ds' where ds: "ds = d # ds'"
    using assms(1) by (cases ds) auto
  then have "isdecimal db d"
    using assms(2) by simp
  then have "d \<noteq> 96 \<and> d \<noteq> 35 \<and> d \<noteq> 45"
    by (auto simp: isdecimal_def split: if_splits)
  then show ?thesis
    by (simp add: ds str_lits)
qed

text \<open>
  C4 does not hold for every line that begins with \<open>'- '\<close> or with digits, a period and
  a space: the test for \<open>'**'\<close> comes first in the chain. The lines \<open>'- **x**'\<close> and
  \<open>'1. **x**'\<close> become paragraphs of runs, not list items.
\<close>

theorem C4_counterexample:
  "\<not> in_code_block init
   \<and> startswith (str ''- **x**'') (str ''- '')
   \<and> step ascii_db init (str ''- **x**'') =
       init\<lparr>doc := [MixedParagraph [(str ''- '', False), (str ''x'', True), (str '''', False)]]\<rparr>
   \<and> doc (step ascii_db init (str ''- **x**'')) \<noteq> [BulletItem (str ''**x**'')]
   \<and> match_numbered ascii_db (str ''1. **x**'')
   \<and> step ascii_db init (str ''1. **x**'') =
       init\<lparr>doc := [MixedParagraph [(str ''1. '', False), (str ''x'', True), (str '''', False)]]\<rparr>
   \<and> doc (step ascii_db init (str ''1. **x**'')) \<noteq> [NumberedItem (str ''**x**'')]"
  by (simp add: step_def classify_def init_def str_def bold_runs_def match_numbered_def
      isdecimal_def)

text \<open>
  C4, amended. Outside a code block, a line that does not contain \<open>'**'\<close> and begins with
  \<open>'- '\<close> becomes a bullet item whose text is the line without these two characters. A
  line that does not contain \<open>'**'\<close> and consists of one or more digits, a period, a
  space and a remainder matches the pattern of the numbered branch and becomes a numbered
  item whose text is that remainder, which is the line after its first space. So
  \<open>'- item'\<close> gives a bullet and \<open>'1. item'\<close> a numbered item, both with text \<open>item\<close>.
\<close>

theorem C4_list_items:
  assumes "\<not> in_code_block s"
  shows "(\<not> contains (str ''**'') (str ''- '' @ t) \<longrightarrow>
            step db s (str ''- '' @ t) = s\<lparr>doc := doc s @ [BulletItem t]\<rparr>)
       \<and> (ds \<noteq> [] \<and> (\<forall>d\<in>set ds. isdecimal db d) \<and> \<not> contains (str ''**'') (ds @ str ''. '' @ u) \<longrightarrow>
            match_numbered db (ds @ str ''. '' @ u)
            \<and> step db s (ds @ str ''. '' @ u) = s\<lparr>doc := doc s @ [NumberedItem u]\<rparr>
            \<and> drop (nat (find_char 32 (ds @ str ''. '' @ u) + 1)) (ds @ str ''. '' @ u) = u)
       \<and> step db s (str ''- item'') = s\<lparr>doc := doc s @ [BulletItem (str ''item'')]\<rparr>
       \<and> step db s (str ''1. item'') = s\<lparr>doc := doc s @ [NumberedItem (str ''item'')]\<rparr>"
proof -
  have bullet: "step db s (str ''- '' @ t) = s\<lparr>doc := doc s @ [BulletItem t]\<rparr>"
    if "\<not> contains (str ''**'') (str ''- '' @ t)" for t
  proof -
    have sw: "startswith (str ''- '' @ t) (str ''- '')"
      by (simp add: startswith_iff)
    have "classify db (str ''- '' @ t) = BulletItem (drop 2 (str ''- '' @ t))"
      using bullet_no_earlier [OF sw] sw that by (simp add: classify_def)
    then show ?thesis
      using bullet_no_earlier [OF sw] assms by (simp add: step_outside str_lits)
  qed
  have numbered: "match_numbered db (ds @ str ''. '' @ u)
      \<and> step db s (ds @ str ''. '' @ u) = s\<lparr>doc := doc s @ [NumberedItem u]\<rparr>
      \<and> drop (nat (find_char 32 (ds @ str ''. '' @ u) + 1)) (ds @ str ''. '' @ u) = u"
    if ds: "ds \<noteq> []" "\<forall>d\<in>set ds. isdecimal db d"
      and nb: "\<not> contains (str ''**'') (ds @ str ''. '' @ u)" for ds u
  proof -
    let ?line = "ds @ str ''. '' @ u"
    have m: "match_numbered db ?line"
      using ds by (auto simp: match_numbered_iff)
    have rest: "drop (nat (find_char 32 ?line + 1)) ?line = u"
      using ds(2) by (rule numbered_text)
    have ne: "\<not> startswith ?line (str ''```'') \<and> \<not> startswith ?line (str ''# '') \<and>
         \<not> startswith ?line (str ''## '') \<and> \<not> startswith ?line (str ''### '') \<and>
         \<not> startswith ?line (str ''#### '') \<and> \<not> startswith ?line (str ''---'') \<and>
         \<not> startswith ?line (str ''- '')"
      using ds by (rule numbered_no_earlier)
    have "classify db ?line = NumberedItem u"
      using ne nb m rest by (simp add: classify_def)
    then show ?thesis
      using ne assms m rest by (simp add: step_outside)
  qed
  have b1: "str ''- item'' = str ''- '' @ str ''item''"
    by (simp add: str_def)
  have "\<not> contains (str ''**'') (str ''- '' @ str ''item'')"
    by (simp add: str_def)
  then have ex1: "step db s (str ''- item'') = s\<lparr>doc := doc s @ [BulletItem (str ''item'')]\<rparr>"
    unfolding b1 by (rule bullet)
  have n1: "str ''1. item'' = str ''1'' @ str ''. '' @ str ''item''"
    by (simp add: str_def)
  have "str ''1'' \<noteq> []" and "\<forall>d\<in>set (str ''1''). isdecimal db d"
    and "\<not> contains (str ''**'') (str ''1'' @ str ''. '' @ str ''item'')"
    by (simp_all add: str_def isdecimal_def)
  then have ex2: "step db s (str ''1. item'') = s\<lparr>doc := doc s @ [NumberedItem (str ''item'')]\<rparr>"
    unfolding n1 using numbered by blast
  show ?thesis
    using bullet numbered ex1 ex2 by blast
qed

theorem C4_list_items_witness:
  "\<not> in_code_block init
   \<and> \<not> contains (str ''**'') (str ''- '' @ str ''Organic produce'')
   \<and> str ''12'' \<noteq> [] \<and> isdecimal ascii_db 49 \<and> isdecimal ascii_db 50
   \<and> \<not> contains (str ''**'') (str ''12'' @ str ''. '' @ str ''Token launch'')
   \<and> step ascii_db init (str ''- Organic produce'') =
       init\<lparr>doc := [BulletItem (str ''Organic produce'')]\<rparr>
   \<and> step ascii_db init (str ''12. Token launch'') =
       init\<lparr>doc := [NumberedItem (str ''Token launch'')]\<rparr>"
  using C4_list_items [where s = init and db = ascii_db and t = "str ''Organic produce''"
      and ds = "str ''12''" and u = "str ''Token launch''"]
  by (simp add: init_def str_def isdecimal_def)

subsection \<open>The lines of the file\<close>





lemma contains_char: "contains [c] s \<longleftrightarrow> c \<in> set s"
  by (induction s) auto

lemma file_lines:
  "str_split (str ''\<newline>'') md_content \<noteq> [] \<and>
   (\<forall>l\<in>set (str_split (str ''\<newline>'') md_content). 10 \<notin> set l)"
  using split_pieces_free [of "[10]" _ md_content]
  by (auto simp: str_nl str_split_not_Nil contains_char)

subsection \<open>The loop as a whole\<close>

lemma run_lines_snoc: "run_lines db (xs @ [x]) = step db (run_lines db xs) x"
  by (simp add: run_lines_def)

lemma run_lines_append: "run_lines db (xs @ ys) = foldl (step db) (run_lines db xs) ys"
  by (simp add: run_lines_def)

lemma step_doc:
  "doc (step db s line) = doc s @
     (if startswith line (str ''```'')
      then (if in_code_block s \<and> code_block_content s \<noteq> []
            then [CodeBlock (join (str ''\<newline>'') (code_block_content s))] else [])
      else if in_code_block s then [] else [classify db line])"
  by (simp add: step_def)

lemma classify_not_code: "classify db line \<noteq> CodeBlock t"
  by (simp add: classify_def)

lemma doc_length_foldl:
  "length (doc (foldl (step db) s lines)) \<le> length (doc s) + length lines"
proof (induction lines arbitrary: s)
  case Nil
  show ?case by simp
next
  case (Cons l lines)
  have "length (doc (step db s l)) \<le> length (doc s) + 1"
    by (simp add: step_doc)
  then show ?case
    using Cons [of "step db s l"] by simp
qed

lemma step_buffer_inv:
  "(\<not> in_code_block s \<longrightarrow> code_block_content s = []) \<Longrightarrow>
   \<not> in_code_block (step db s line) \<longrightarrow> code_block_content (step db s line) = []"
  by (simp add: step_def)

lemma buffer_inv:
  "\<not> in_code_block (run_lines db lines) \<longrightarrow> code_block_content (run_lines db lines) = []"
proof (induction lines rule: rev_induct)
  case Nil
  show ?case by (simp add: run_lines_def init_def)
next
  case (snoc x xs)
  then show ?case
    unfolding run_lines_snoc by (rule step_buffer_inv)
qed

lemma open_fence_decomp:
  "in_code_block (run_lines db lines) \<Longrightarrow>
   \<exists>pre opener body. lines = pre @ opener # body \<and> startswith opener (str ''```'') \<and>
     (\<forall>l\<in>set body. \<not> startswith l (str ''```'')) \<and> \<not> in_code_block (run_lines db pre) \<and>
     run_lines db lines = (run_lines db pre)\<lparr>in_code_block := True, code_block_content := body\<rparr>"
proof (induction lines rule: rev_induct)
  case Nil
  then show ?case by (simp add: run_lines_def init_def)
next
  case (snoc x xs)
  show ?case
  proof (cases "startswith x (str ''```'')")
    case True
    have out: "\<not> in_code_block (run_lines db xs)"
      using snoc.prems True by (auto simp: run_lines_snoc step_def split: if_splits)
    then have "code_block_content (run_lines db xs) = []"
      using buffer_inv by blast
    then have "run_lines db (xs @ [x]) =
        (run_lines db xs)\<lparr>in_code_block := True, code_block_content := []\<rparr>"
      using out True by (simp add: run_lines_snoc step_open)
    then have "xs @ [x] = xs @ x # [] \<and> startswith x (str ''```'') \<and>
        (\<forall>l\<in>set []. \<not> startswith l (str ''```'')) \<and> \<not> in_code_block (run_lines db xs) \<and>
        run_lines db (xs @ [x]) =
          (run_lines db xs)\<lparr>in_code_block := True, code_block_content := []\<rparr>"
      using True out by simp
    then show ?thesis by blast
  next
    case False
    have inb: "in_code_block (run_lines db xs)"
      using snoc.prems False by (auto simp: run_lines_snoc step_def split: if_splits)
    then obtain pre opener body where d: "xs = pre @ opener # body"
      "startswith opener (str ''```'')" "\<forall>l\<in>set body. \<not> startswith l (str ''```'')"
      "\<not> in_code_block (run_lines db pre)"
      "run_lines db xs = (run_lines db pre)\<lparr>in_code_block := True, code_block_content := body\<rparr>"
      using snoc.IH by blast
    have "run_lines db (xs @ [x]) =
        (run_lines db pre)\<lparr>in_code_block := True, code_block_content := body @ [x]\<rparr>"
      using inb False d(5) by (simp add: run_lines_snoc step_buffer)
    then have "xs @ [x] = pre @ opener # (body @ [x]) \<and> startswith opener (str ''```'') \<and>
        (\<forall>l\<in>set (body @ [x]). \<not> startswith l (str ''```'')) \<and>
        \<not> in_code_block (run_lines db pre) \<and>
        run_lines db (xs @ [x]) =
          (run_lines db pre)\<lparr>in_code_block := True, code_block_content := body @ [x]\<rparr>"
      using d False by simp
    then show ?thesis by blast
  qed
qed

text \<open>
  The loop with the exception agrees with the loop of calls: it raises exactly when
  python-docx refuses one of the blocks the calls would add, and otherwise ends in the
  same state.
\<close>

lemma step_docx_step:
  "step_docx db xml s line =
     (if list_all (accepts xml) (drop (length (doc s)) (doc (step db s line)))
      then Inr (step db s line) else Inl ValueError)"
  by (simp add: step_docx_def step_def add_block_def)

lemma doc_extends: "\<exists>bs. doc (foldl (step db) s lines) = doc s @ bs"
proof (induction lines arbitrary: s)
  case Nil
  show ?case by simp
next
  case (Cons l lines)
  obtain bs where "doc (foldl (step db) (step db s l) lines) = doc (step db s l) @ bs"
    using Cons [of "step db s l"] by blast
  then show ?case
    by (simp add: step_doc)
qed

lemma run_from_run:
  "run_from db xml s lines =
     (if list_all (accepts xml) (drop (length (doc s)) (doc (foldl (step db) s lines)))
      then Inr (foldl (step db) s lines) else Inl ValueError)"
proof (induction lines arbitrary: s)
  case Nil
  show ?case by simp
next
  case (Cons l lines)
  obtain bs where bs: "doc (step db s l) = doc s @ bs"
    using doc_extends [of db s "[l]"] by auto
  obtain cs where cs: "doc (foldl (step db) (step db s l) lines) = doc (step db s l) @ cs"
    using doc_extends [of db "step db s l" lines] by blast
  show ?case
    using Cons [of "step db s l"] by (simp add: step_docx_step bs cs)
qed

lemma run_docx_run:
  "run_docx db xml lines =
     (if list_all (accepts xml) (doc (run_lines db lines))
      then Inr (run_lines db lines) else Inl ValueError)"
  using run_from_run [of db xml init lines] by (simp add: run_docx_def run_lines_def init_def)

lemma open_fence_run:
  "startswith opener (str ''```'') \<Longrightarrow> \<forall>l\<in>set body. \<not> startswith l (str ''```'') \<Longrightarrow>
   run_lines db (opener # body) = \<lparr>in_code_block = True, code_block_content = body, doc = []\<rparr>"
  using buffer_lines [of "init\<lparr>in_code_block := True\<rparr>" body db]
  by (simp add: run_lines_def step_open init_def)

text \<open>
  C5. Every line adds no block or one block. The state before a line is the state the
  loop reaches on the lines before it. From any state, a fence line adds nothing, except
  that a closing fence with a non-empty buffer adds the one code block of the buffered
  lines; a line inside a code block adds nothing; every other line adds exactly one
  block, the one the chain gives, which is never a code block. So the document never has
  more blocks than the input has lines.
\<close>

theorem C5_zero_or_one_block:
  "run_lines db (xs @ [x]) = step db (run_lines db xs) x
   \<and> doc (step db s line) = doc s @
       (if startswith line (str ''```'')
        then (if in_code_block s \<and> code_block_content s \<noteq> []
              then [CodeBlock (join (str ''\<newline>'') (code_block_content s))] else [])
        else if in_code_block s then [] else [classify db line])
   \<and> classify db line \<noteq> CodeBlock t
   \<and> length (doc (step db s line)) \<le> length (doc s) + 1
   \<and> length (doc (run_lines db lines)) \<le> length lines"
proof -
  have "length (doc (step db s line)) \<le> length (doc s) + 1"
    by (simp add: step_doc)
  moreover have "length (doc (run_lines db lines)) \<le> length lines"
    using doc_length_foldl [of db init lines] by (simp add: run_lines_def init_def)
  ultimately show ?thesis
    using run_lines_snoc [of db xs x] step_doc [of db s line] classify_not_code [of db line t]
    by blast
qed

text \<open>
  C6 does not hold for every input that ends inside a code block: a line before the
  open fence can make python-docx raise. The line \<open>'a\x0cb'\<close> is a paragraph with a form
  feed, which XML does not allow, so the loop ends with \<open>ValueError\<close> on the first of
  the lines \<open>'a\x0cb'\<close>, \<open>```\<close>, \<open>line1\<close>, and on the file text that splits into them.
\<close>

theorem C6_counterexample:
  "in_code_block (run_lines ascii_db
      [str [CHR ''a'', CHR 0x0C, CHR ''b''], str ''```'', str ''line1''])
   \<and> run_docx ascii_db xml10
      [str [CHR ''a'', CHR 0x0C, CHR ''b''], str ''```'', str ''line1''] = Inl ValueError
   \<and> convert_or_raise ascii_db xml10
      (str ([CHR ''a'', CHR 0x0C, CHR ''b''] @ ''\<newline>```\<newline>line1'')) = Inl ValueError"
  by (simp add: run_lines_def run_docx_def convert_or_raise_def step_docx_def step_def add_block_def
      accepts_def xml_compatible_def classify_def init_def str_def match_numbered_def
      isdecimal_def strip_def isspace_def)

text \<open>
  C6, amended. The loop raises exactly when python-docx refuses one of the blocks that
  the lines add. When the input ends inside a code block and python-docx accepts every
  block the lines add, the loop completes: the input is a prefix that ends outside a
  code block, an opening fence line and a body without fence lines, the loop returns
  the state of the prefix with the body in the buffer, and the document is the document
  of the prefix alone, so the body appears in no block. The body is never handed to
  python-docx: a fence line followed by any lines without a fence completes with an
  empty document, whatever characters those lines have. The lines \<open>```\<close>, \<open>line1\<close>
  complete inside a code block with an empty document, and so does the file text that
  splits into them.
\<close>

theorem C6_unterminated_fence:
  "run_docx db xml lines =
     (if list_all (accepts xml) (doc (run_lines db lines))
      then Inr (run_lines db lines) else Inl ValueError)
   \<and> (in_code_block (run_lines db lines) \<and> list_all (accepts xml) (doc (run_lines db lines)) \<longrightarrow>
        (\<exists>pre opener body. lines = pre @ opener # body \<and> startswith opener (str ''```'') \<and>
           (\<forall>l\<in>set body. \<not> startswith l (str ''```'')) \<and>
           \<not> in_code_block (run_lines db pre) \<and>
           run_docx db xml lines =
             Inr ((run_lines db pre)\<lparr>in_code_block := True, code_block_content := body\<rparr>) \<and>
           code_block_content (run_lines db lines) = body \<and>
           doc (run_lines db lines) = doc (run_lines db pre)))
   \<and> (startswith fence (str ''```'') \<and> (\<forall>l\<in>set buffered. \<not> startswith l (str ''```'')) \<longrightarrow>
        run_docx db xml (fence # buffered) =
          Inr \<lparr>in_code_block = True, code_block_content = buffered, doc = []\<rparr>)
   \<and> run_docx db xml [str ''```'', str ''line1''] =
        Inr \<lparr>in_code_block = True, code_block_content = [str ''line1''], doc = []\<rparr>
   \<and> convert_or_raise db xml (str ''```\<newline>line1'') = Inr []
   \<and> in_code_block (run_lines db [str ''```'', str ''line1''])
   \<and> doc (run_lines db [str ''```'', str ''line1'']) = []
   \<and> convert_markdown_to_docx db (str ''```\<newline>line1'') = []"
proof -
  have a: "\<exists>pre opener body. lines = pre @ opener # body \<and> startswith opener (str ''```'') \<and>
           (\<forall>l\<in>set body. \<not> startswith l (str ''```'')) \<and>
           \<not> in_code_block (run_lines db pre) \<and>
           run_docx db xml lines =
             Inr ((run_lines db pre)\<lparr>in_code_block := True, code_block_content := body\<rparr>) \<and>
           code_block_content (run_lines db lines) = body \<and>
           doc (run_lines db lines) = doc (run_lines db pre)"
    if inb: "in_code_block (run_lines db lines)"
      and ok: "list_all (accepts xml) (doc (run_lines db lines))"
  proof -
    obtain pre opener body where d: "lines = pre @ opener # body"
      "startswith opener (str ''```'')" "\<forall>l\<in>set body. \<not> startswith l (str ''```'')"
      "\<not> in_code_block (run_lines db pre)"
      "run_lines db lines = (run_lines db pre)\<lparr>in_code_block := True, code_block_content := body\<rparr>"
      using open_fence_decomp [OF inb] by blast
    have "run_docx db xml lines =
        Inr ((run_lines db pre)\<lparr>in_code_block := True, code_block_content := body\<rparr>)"
      using ok d(5) by (simp add: run_docx_run)
    moreover have "code_block_content (run_lines db lines) = body"
      and "doc (run_lines db lines) = doc (run_lines db pre)"
      unfolding d(5) by simp_all
    ultimately show ?thesis
      using d(1-4) by blast
  qed
  have b: "run_docx db xml (fence # buffered) =
          Inr \<lparr>in_code_block = True, code_block_content = buffered, doc = []\<rparr>"
    if "startswith fence (str ''```'')" and "\<forall>l\<in>set buffered. \<not> startswith l (str ''```'')"
    for fence buffered
    using open_fence_run [OF that, of db] by (simp add: run_docx_run)
  have "startswith (str ''```'') (str ''```'')"
    and "\<forall>l\<in>set [str ''line1'']. \<not> startswith l (str ''```'')"
    by (simp_all add: str_def)
  then have c: "run_docx db xml [str ''```'', str ''line1''] =
        Inr \<lparr>in_code_block = True, code_block_content = [str ''line1''], doc = []\<rparr>"
    by (rule b)
  have e: "run_lines db [str ''```'', str ''line1''] =
      \<lparr>in_code_block = True, code_block_content = [str ''line1''], doc = []\<rparr>"
    by (simp add: run_lines_def step_def init_def str_def)
  have sp: "str_split (str ''\<newline>'') (str ''```\<newline>line1'') = [str ''```'', str ''line1'']"
    by (simp add: str_def)
  have f: "convert_or_raise db xml (str ''```\<newline>line1'') = Inr []"
    by (simp add: convert_or_raise_def sp c)
  have g: "convert_markdown_to_docx db (str ''```\<newline>line1'') = []"
    by (simp add: convert_markdown_to_docx_def sp e)
  show ?thesis
    using a b c e f g run_docx_run [of db xml lines] by simp
qed

theorem C6_unterminated_fence_witness:
  "in_code_block (run_lines ascii_db [str ''intro'', str ''```python'', str ''x = 1'', str ''''])
   \<and> list_all (accepts xml10)
        (doc (run_lines ascii_db [str ''intro'', str ''```python'', str ''x = 1'', str '''']))
   \<and> startswith (str ''```'') (str ''```'')
   \<and> \<not> startswith (str [CHR ''x'', CHR 0x0C]) (str ''```'')
   \<and> run_docx ascii_db xml10 [str ''intro'', str ''```python'', str ''x = 1'', str ''''] =
       Inr \<lparr>in_code_block = True, code_block_content = [str ''x = 1'', str ''''],
            doc = [Paragraph (str ''intro'')]\<rparr>
   \<and> doc (run_lines ascii_db [str ''intro'', str ''```python'', str ''x = 1'', str '''']) =
       doc (run_lines ascii_db [str ''intro''])
   \<and> run_docx ascii_db xml10 [str ''```'', str [CHR ''x'', CHR 0x0C]] =
       Inr \<lparr>in_code_block = True, code_block_content = [str [CHR ''x'', CHR 0x0C]], doc = []\<rparr>"
  using C6_unterminated_fence [where db = ascii_db and xml = xml10
      and lines = "[str ''intro'', str ''```python'', str ''x = 1'', str '''']"
      and fence = "str ''```''" and buffered = "[str [CHR ''x'', CHR 0x0C]]"]
  by (simp add: run_lines_def step_def init_def classify_def str_def match_numbered_def
      isdecimal_def strip_def isspace_def accepts_def xml_compatible_def)

text \<open>
  C10. After any sequence of lines, so before every line and at the end, the buffer is
  empty whenever the loop is outside a code block. Therefore, when a fence line closes
  a code block, the lines before it are a prefix that ends outside a code block, the
  opening fence line and a body without fence lines, and the block added, if any, is
  the code block of exactly that body joined by newlines.
\<close>

theorem C10_buffer_invariant:
  "(\<not> in_code_block (run_lines db lines) \<longrightarrow> code_block_content (run_lines db lines) = [])
   \<and> (in_code_block (run_lines db lines) \<and> startswith closer (str ''```'') \<longrightarrow>
        (\<exists>pre opener body. lines = pre @ opener # body \<and> startswith opener (str ''```'') \<and>
           \<not> in_code_block (run_lines db pre) \<and>
           (\<forall>l\<in>set body. \<not> startswith l (str ''```'')) \<and>
           doc (run_lines db (lines @ [closer])) = doc (run_lines db lines) @
             (if body \<noteq> [] then [CodeBlock (join (str ''\<newline>'') body)] else [])))"
proof -
  have "\<exists>pre opener body. lines = pre @ opener # body \<and> startswith opener (str ''```'') \<and>
           \<not> in_code_block (run_lines db pre) \<and>
           (\<forall>l\<in>set body. \<not> startswith l (str ''```'')) \<and>
           doc (run_lines db (lines @ [closer])) = doc (run_lines db lines) @
             (if body \<noteq> [] then [CodeBlock (join (str ''\<newline>'') body)] else [])"
    if inb: "in_code_block (run_lines db lines)" and cl: "startswith closer (str ''```'')"
  proof -
    obtain pre opener body where d: "lines = pre @ opener # body"
      "startswith opener (str ''```'')" "\<forall>l\<in>set body. \<not> startswith l (str ''```'')"
      "\<not> in_code_block (run_lines db pre)"
      "run_lines db lines = (run_lines db pre)\<lparr>in_code_block := True, code_block_content := body\<rparr>"
      using open_fence_decomp [OF inb] by blast
    have "code_block_content (run_lines db lines) = body"
      unfolding d(5) by simp
    then have "doc (run_lines db (lines @ [closer])) = doc (run_lines db lines) @
             (if body \<noteq> [] then [CodeBlock (join (str ''\<newline>'') body)] else [])"
      using inb cl by (simp add: run_lines_snoc step_doc)
    then show ?thesis
      using d(1-4) by blast
  qed
  then show ?thesis
    using buffer_inv [of db lines] by blast
qed

theorem C10_buffer_invariant_witness:
  "\<not> in_code_block (run_lines ascii_db [str ''```'', str ''a'', str ''```''])
   \<and> code_block_content (run_lines ascii_db [str ''```'', str ''a'', str ''```'']) = []
   \<and> in_code_block (run_lines ascii_db [str ''```'', str ''a'', str ''```'', str ''```sh'', str ''ls'', str ''pwd''])
   \<and> startswith (str ''```'') (str ''```'')
   \<and> doc (run_lines ascii_db
        ([str ''```'', str ''a'', str ''```'', str ''```sh'', str ''ls'', str ''pwd''] @ [str ''```''])) =
       [CodeBlock (str ''a''), CodeBlock (str ''ls\<newline>pwd'')]"
  using C10_buffer_invariant [where db = ascii_db and lines = "[str ''```'', str ''a'', str ''```'']"]
    C10_buffer_invariant [where db = ascii_db and closer = "str ''```''"
      and lines = "[str ''```'', str ''a'', str ''```'', str ''```sh'', str ''ls'', str ''pwd'']"]
  by (simp add: run_lines_def step_def init_def str_def)

subsection \<open>Hash marks that are no heading\<close>

lemma hashes_prefix_iff:
  "\<not> startswith rest [35] \<Longrightarrow>
   startswith (replicate n 35 @ rest) (replicate k 35 @ [32 :: nat]) \<longleftrightarrow>
     n = k \<and> startswith rest [32]"
proof (induction k arbitrary: n)
  case 0
  then show ?case by (cases n) auto
next
  case (Suc k)
  show ?case
  proof (cases n)
    case 0
    then show ?thesis
      using Suc.prems by (cases rest) auto
  next
    case (Suc m)
    then show ?thesis
      using Suc.IH [OF Suc.prems, of m] by simp
  qed
qed

lemma str_hashes: "str (replicate n CHR ''#'') = replicate n 35"
  by (simp add: str_def)

lemma hashes_no_heading:
  assumes "0 < n" and "\<not> startswith rest (str ''#'')"
    and "\<not> startswith rest (str '' '') \<or> 5 \<le> n"
  shows "\<not> startswith (str (replicate n CHR ''#'') @ rest) (str ''# '') \<and>
         \<not> startswith (str (replicate n CHR ''#'') @ rest) (str ''## '') \<and>
         \<not> startswith (str (replicate n CHR ''#'') @ rest) (str ''### '') \<and>
         \<not> startswith (str (replicate n CHR ''#'') @ rest) (str ''#### '')"
proof -
  have r: "\<not> startswith rest [35]"
    using assms(2) by (simp add: str_def)
  have k: "\<not> (n = k \<and> startswith rest [32])" if "k < 5" for k
    using assms(3) that by (auto simp: str_def)
  have h: "\<not> startswith (replicate n 35 @ rest) (replicate k 35 @ [32])" if "k < 5" for k
    using hashes_prefix_iff [OF r, of n k] k [OF that] by simp
  have "\<not> startswith (replicate n 35 @ rest) (str ''# '')"
    using h [of 1] by (simp add: str_def)
  moreover have "\<not> startswith (replicate n 35 @ rest) (str ''## '')"
    using h [of 2] by (simp add: str_def eval_nat_numeral)
  moreover have "\<not> startswith (replicate n 35 @ rest) (str ''### '')"
    using h [of 3] by (simp add: str_def eval_nat_numeral)
  moreover have "\<not> startswith (replicate n 35 @ rest) (str ''#### '')"
    using h [of 4] by (simp add: str_def eval_nat_numeral)
  ultimately show ?thesis
    unfolding str_hashes by simp
qed

lemma hashes_later_rules:
  assumes "0 < n"
  shows "\<not> startswith (str (replicate n CHR ''#'') @ rest) (str ''```'') \<and>
         \<not> startswith (str (replicate n CHR ''#'') @ rest) (str ''---'') \<and>
         \<not> startswith (str (replicate n CHR ''#'') @ rest) (str ''- '') \<and>
         \<not> match_numbered db (str (replicate n CHR ''#'') @ rest) \<and>
         strip db (str (replicate n CHR ''#'') @ rest) \<noteq> []"
proof -
  obtain m where n: "n = Suc m"
    using assms by (cases n) auto
  have "\<not> isspace db 35" and "\<not> isdecimal db 35"
    by (simp_all add: isspace_def isdecimal_def)
  then show ?thesis
    unfolding str_hashes n
    by (auto simp: str_lits match_numbered_def strip_nonempty_iff)
qed

text \<open>
  C9. Outside a code block, take a line that begins with exactly \<open>n\<close> hash marks,
  \<open>n\<close> at least 1, where the next character is no space or \<open>n\<close> is at least 5 (so
  \<open>'#text'\<close>, \<open>'##x'\<close>, \<open>'#'\<close> and \<open>'##### x'\<close>). The line adds one block, which is
  never a heading: it is the paragraph with the unchanged line when the line does not
  contain \<open>'**'\<close>, and the paragraph of runs otherwise. Such a line begins with neither
  \<open>'---'\<close> nor a list prefix, so the absence of \<open>'**'\<close> is the only condition left.
\<close>

theorem C9_hashes_without_heading:
  assumes "\<not> in_code_block s"
    and "0 < n"
    and "\<not> startswith rest (str ''#'')"
    and "\<not> startswith rest (str '' '') \<or> 5 \<le> n"
  shows "step db s (str (replicate n CHR ''#'') @ rest) =
           s\<lparr>doc := doc s @ [classify db (str (replicate n CHR ''#'') @ rest)]\<rparr>
       \<and> classify db (str (replicate n CHR ''#'') @ rest) \<noteq> Heading l t
       \<and> (\<not> contains (str ''**'') (str (replicate n CHR ''#'') @ rest) \<longrightarrow>
            classify db (str (replicate n CHR ''#'') @ rest) =
              Paragraph (str (replicate n CHR ''#'') @ rest))
       \<and> (contains (str ''**'') (str (replicate n CHR ''#'') @ rest) \<longrightarrow>
            classify db (str (replicate n CHR ''#'') @ rest) =
              MixedParagraph (bold_runs (str_split (str ''**'') (str (replicate n CHR ''#'') @ rest))))"
proof -
  let ?line = "str (replicate n CHR ''#'') @ rest"
  note h = hashes_no_heading [OF assms(2-4)]
  note r = hashes_later_rules [OF assms(2), of rest db]
  have a: "step db s ?line = s\<lparr>doc := doc s @ [classify db ?line]\<rparr>"
    using assms(1) r by (simp add: step_outside)
  have b: "classify db ?line = Paragraph ?line" if "\<not> contains (str ''**'') ?line"
    using h r that by (simp add: classify_def)
  have c: "classify db ?line = MixedParagraph (bold_runs (str_split (str ''**'') ?line))"
    if "contains (str ''**'') ?line"
    using h r that by (simp add: classify_bold)
  have "classify db ?line \<noteq> Heading l t"
    using b c by (cases "contains (str ''**'') ?line") auto
  then show ?thesis
    using a b c by blast
qed

theorem C9_hashes_without_heading_witness:
  "\<not> in_code_block init
   \<and> \<not> startswith (str ''text'') (str ''#'') \<and> \<not> startswith (str ''text'') (str '' '')
   \<and> \<not> startswith (str '' x'') (str ''#'') \<and> (5::nat) \<le> 5
   \<and> \<not> contains (str ''**'') (str (replicate 1 CHR ''#'') @ str ''text'')
   \<and> \<not> contains (str ''**'') (str (replicate 5 CHR ''#'') @ str '' x'')
   \<and> step ascii_db init (str ''#text'') = init\<lparr>doc := [Paragraph (str ''#text'')]\<rparr>
   \<and> step ascii_db init (str ''##### x'') = init\<lparr>doc := [Paragraph (str ''##### x'')]\<rparr>"
  using C9_hashes_without_heading [where s = init and db = ascii_db and n = 1 and rest = "str ''text''"]
    C9_hashes_without_heading [where s = init and db = ascii_db and n = 5 and rest = "str '' x''"]
  by (simp add: init_def str_def eval_nat_numeral)

subsection \<open>Plain documents\<close>






end
